theory Spec2Isabelle
  imports Main "HOL-Library.AList" "HOL-Library.List_Lexorder" "HOL-Library.Char_ord"
begin

section \<open>Python values used by the two source files\<close>

text \<open>
  Exceptions the two files can raise: a dictionary read of a missing key
  (\<^verbatim>\<open>d[k]\<close>) and \<^verbatim>\<open>max\<close> of an empty sequence.
\<close>

datatype error = KeyError string | ValueError

text \<open>
  A Python \<^verbatim>\<open>dict\<close> is an association list in insertion order (the order
  \<^verbatim>\<open>.values()\<close> iterates in); \<^verbatim>\<open>d[k]\<close> raises \<^verbatim>\<open>KeyError\<close> on a missing key.
\<close>

definition getitem :: "(string \<times> 'v) list \<Rightarrow> string \<Rightarrow> error + 'v" where
  "getitem d k = (case map_of d k of None \<Rightarrow> Inl (KeyError k) | Some v \<Rightarrow> Inr v)"

definition dict_values :: "('k \<times> 'v) list \<Rightarrow> 'v list" where
  "dict_values d = map snd d"

text \<open>\<^verbatim>\<open>range(n)\<close> for a length \<open>n\<close>, and \<^verbatim>\<open>len\<close> as a Python integer.\<close>

definition py_range :: "nat \<Rightarrow> int list" where
  "py_range n = map int [0..<n]"

definition len :: "'a list \<Rightarrow> int" where
  "len xs = int (length xs)"

text \<open>\<^verbatim>\<open>str(i)\<close> of an integer, as the f-strings of the sources format it.\<close>

fun str_nat :: "nat \<Rightarrow> string" where
  "str_nat n =
     (if n < 10 then [char_of (48 + n)]
      else str_nat (n div 10) @ [char_of (48 + n mod 10)])"

definition str_int :: "int \<Rightarrow> string" where
  "str_int i = (if i < 0 then CHR ''-'' # str_nat (nat (- i)) else str_nat (nat i))"

text \<open>
  A loop whose body may raise: the bodies run left to right and the first
  exception ends the loop.
\<close>

fun for_each :: "('a \<Rightarrow> error + 'b) \<Rightarrow> 'a list \<Rightarrow> error + 'b list" where
  "for_each f [] = Inr []"
| "for_each f (x # xs) =
     (case f x of
        Inl e \<Rightarrow> Inl e
      | Inr y \<Rightarrow> (case for_each f xs of Inl e \<Rightarrow> Inl e | Inr ys \<Rightarrow> Inr (y # ys)))"


section \<open>scenario\_b\_feasible.py: the data section\<close>

text \<open>
  The script's data section. Every later statement of the script reads these
  names only, so the script is modelled as a function of them; \<open>scenario_b\<close>
  below holds the values the file assigns.
\<close>

record config =
  students :: "string list"
  subjects :: "string list"
  days :: "string list"
  periods :: "int list"
  rooms :: "(string \<times> string) list"
  teachers :: "(string \<times> string) list"
  subject_hours :: "(string \<times> int) list"
  allowed_days_t1 :: "int list"

definition scenario_b :: config where
  "scenario_b =
     \<lparr> students = [''S1'', ''S2'', ''S3''],
       subjects = [''A'', ''B'', ''C'', ''D'', ''E''],
       days = [''Mon'', ''Tue'', ''Wed'', ''Thu'', ''Fri''],
       periods = py_range 5,
       rooms = [(''A'', ''Room_A''), (''B'', ''Room_B''), (''C'', ''Room_C''),
                (''D'', ''Room_D''), (''E'', ''Room_E'')],
       teachers = [(''A'', ''T1''), (''B'', ''T2''), (''C'', ''T3''),
                   (''D'', ''T4''), (''E'', ''T5'')],
       subject_hours = [(''A'', 2), (''B'', 2), (''C'', 5), (''D'', 1), (''E'', 1)],
       allowed_days_t1 = [1, 2] \<rparr>"


section \<open>scenario\_b\_feasible.py: the model handed to the solver\<close>

text \<open>
  The dictionary \<^verbatim>\<open>x\<close> maps a key \<^verbatim>\<open>(s, subj, d, p, r)\<close> to the Boolean variable
  created for it. Constraints, objective and decoding reach a variable through
  \<^verbatim>\<open>x\<close> only, so a variable is identified with its key.
\<close>

type_synonym key = "string \<times> string \<times> int \<times> int \<times> string"

text \<open>
  \<^verbatim>\<open>model.Add(sum(scope) == k)\<close> and \<^verbatim>\<open>model.Add(sum(scope) <= k)\<close>; the scope
  lists the summed variables in the order the generator yields them.
\<close>

datatype constr = Sum_eq "key list" int | Sum_le "key list" int

record cp_model =
  bool_vars :: "(key \<times> string) list"
  constraints :: "constr list"
  minimize :: "key list"

definition day_range :: "config \<Rightarrow> int list" where
  "day_range cfg = py_range (length (days cfg))"

definition var_name :: "key \<Rightarrow> string" where
  "var_name k =
     (case k of (s, subj, d, p, r) \<Rightarrow>
        s @ ''_'' @ subj @ ''_'' @ str_int d @ ''_'' @ str_int p @ ''_'' @ r)"

definition decision_variables :: "config \<Rightarrow> (key \<times> string) list" where
  "decision_variables cfg =
     concat (map (\<lambda>s. concat (map (\<lambda>subj. concat (map (\<lambda>d. concat (map (\<lambda>p.
       map (\<lambda>r. ((s, subj, d, p, r), var_name (s, subj, d, p, r)))
         (dict_values (rooms cfg)))
       (periods cfg))) (day_range cfg))) (subjects cfg))) (students cfg))"

text \<open>1. Each student gets correct weekly hours per subject.\<close>

definition weekly_hours :: "config \<Rightarrow> error + constr list" where
  "weekly_hours cfg =
     for_each (\<lambda>(s, subj).
        case getitem (subject_hours cfg) subj of
          Inl e \<Rightarrow> Inl e
        | Inr h \<Rightarrow>
            Inr (Sum_eq
              (concat (map (\<lambda>d. concat (map (\<lambda>p.
                 map (\<lambda>r. (s, subj, d, p, r)) (dict_values (rooms cfg)))
                 (periods cfg))) (day_range cfg)))
              h))
       (concat (map (\<lambda>s. map (\<lambda>subj. (s, subj)) (subjects cfg)) (students cfg)))"

text \<open>2. A student cannot have two lessons at same time.\<close>

definition student_slot :: "config \<Rightarrow> constr list" where
  "student_slot cfg =
     concat (map (\<lambda>s. concat (map (\<lambda>d. map (\<lambda>p.
       Sum_le
         (concat (map (\<lambda>subj. map (\<lambda>r. (s, subj, d, p, r)) (dict_values (rooms cfg)))
            (subjects cfg)))
         1)
       (periods cfg)) (day_range cfg))) (students cfg))"

text \<open>3. Room cannot host two classes at same time.\<close>

definition room_slot :: "config \<Rightarrow> constr list" where
  "room_slot cfg =
     concat (map (\<lambda>r. concat (map (\<lambda>d. map (\<lambda>p.
       Sum_le
         (concat (map (\<lambda>s. map (\<lambda>subj. (s, subj, d, p, r)) (subjects cfg))
            (students cfg)))
         1)
       (periods cfg)) (day_range cfg))) (dict_values (rooms cfg)))"

text \<open>4. Teacher cannot teach two classes at same time (one constraint per subject and slot).\<close>

definition teacher_slot :: "config \<Rightarrow> constr list" where
  "teacher_slot cfg =
     concat (map (\<lambda>subj. concat (map (\<lambda>d. map (\<lambda>p.
       Sum_le
         (concat (map (\<lambda>s. map (\<lambda>r. (s, subj, d, p, r)) (dict_values (rooms cfg)))
            (students cfg)))
         1)
       (periods cfg)) (day_range cfg))) (subjects cfg))"

text \<open>5. Teacher 1 only works on the allowed days.\<close>

definition t1_days :: "config \<Rightarrow> error + constr list list" where
  "t1_days cfg =
     for_each (\<lambda>(s, subj).
        case getitem (teachers cfg) subj of
          Inl e \<Rightarrow> Inl e
        | Inr t \<Rightarrow>
            Inr (if t = ''T1''
                 then concat (map (\<lambda>d.
                        if d \<notin> set (allowed_days_t1 cfg)
                        then concat (map (\<lambda>p.
                               map (\<lambda>r. Sum_eq [(s, subj, d, p, r)] 0)
                                 (dict_values (rooms cfg)))
                               (periods cfg))
                        else [])
                        (day_range cfg))
                 else []))
       (concat (map (\<lambda>s. map (\<lambda>subj. (s, subj)) (subjects cfg)) (students cfg)))"

text \<open>Soft constraint: prefer the dedicated room.\<close>

definition penalties :: "config \<Rightarrow> error + key list list" where
  "penalties cfg =
     for_each (\<lambda>(s, subj).
        case getitem (rooms cfg) subj of
          Inl e \<Rightarrow> Inl e
        | Inr preferred_room \<Rightarrow>
            Inr (concat (map (\<lambda>d. concat (map (\<lambda>p.
                   concat (map (\<lambda>r. if r \<noteq> preferred_room then [(s, subj, d, p, r)] else [])
                     (dict_values (rooms cfg))))
                   (periods cfg))) (day_range cfg))))
       (concat (map (\<lambda>s. map (\<lambda>subj. (s, subj)) (subjects cfg)) (students cfg)))"

text \<open>The model as it stands when \<^verbatim>\<open>solver.Solve(model)\<close> is reached.\<close>

definition build :: "config \<Rightarrow> error + cp_model" where
  "build cfg =
     (case weekly_hours cfg of
        Inl e \<Rightarrow> Inl e
      | Inr c1 \<Rightarrow>
          (case t1_days cfg of
             Inl e \<Rightarrow> Inl e
           | Inr c5 \<Rightarrow>
               (case penalties cfg of
                  Inl e \<Rightarrow> Inl e
                | Inr pen \<Rightarrow>
                    Inr \<lparr> bool_vars = decision_variables cfg,
                          constraints =
                            c1 @ student_slot cfg @ room_slot cfg @ teacher_slot cfg @ concat c5,
                          minimize = concat pen \<rparr>)))"

text \<open>
  What an assignment of the Boolean variables makes of a linear expression
  and of a constraint.
\<close>

definition sum_true :: "(key \<Rightarrow> bool) \<Rightarrow> key list \<Rightarrow> int" where
  "sum_true v ks = sum_list (map (\<lambda>k. if v k then 1 else 0) ks)"

fun holds :: "(key \<Rightarrow> bool) \<Rightarrow> constr \<Rightarrow> bool" where
  "holds v (Sum_eq ks b) = (sum_true v ks = b)"
| "holds v (Sum_le ks b) = (sum_true v ks \<le> b)"

definition satisfies :: "cp_model \<Rightarrow> (key \<Rightarrow> bool) \<Rightarrow> bool" where
  "satisfies m v = list_all (holds v) (constraints m)"

definition objective_value :: "cp_model \<Rightarrow> (key \<Rightarrow> bool) \<Rightarrow> int" where
  "objective_value m v = sum_true v (minimize m)"


section \<open>plot\_schedule.py\<close>

text \<open>An entry is the tuple \<^verbatim>\<open>(student, day_index, period_index, subject, room)\<close>.\<close>

type_synonym entry = "string \<times> int \<times> int \<times> string \<times> string"

text \<open>
  The observable effects of the two files, in the order they happen: console
  lines, the call of the solver, the call of \<^verbatim>\<open>plot_schedule\<close> with the entries it
  is given, and the Matplotlib calls of \<^verbatim>\<open>plot_schedule\<close>. Styling arguments
  (fonts, line widths, alpha) are constants of the source and are left out.
  Coordinates that the source computes as floats are recorded by the integers
  they are computed from:
  \<^item> \<open>Broken_barh start y color\<close> is \<^verbatim>\<open>ax.broken_barh([(start, 1)], (y, row_height), facecolors=color)\<close>;
  \<^item> \<open>Text_block start y subject\<close> is \<^verbatim>\<open>ax.text(start + 0.5, y + row_height / 2, subject)\<close>;
  \<^item> \<open>Set_xticks_minor total_slots\<close> is \<^verbatim>\<open>ax.set_xticks([i + 0.5 for i in range(total_slots)], minor=True)\<close>;
  \<^item> \<open>Text_day x period_count top_y day_name\<close> is \<^verbatim>\<open>ax.text(x + period_count / 2, top_y, day_name)\<close>
    with \<^verbatim>\<open>x = day_idx * period_count\<close>;
  \<^item> \<open>Set_yticks ys\<close> is \<^verbatim>\<open>ax.set_yticks([y + row_height / 2 ...])\<close> with \<open>ys\<close> the list of the \<^verbatim>\<open>y\<close>.
\<close>

datatype 'c call =
    Print string
  | Solver_Solve
  | Call_plot_schedule "entry list"
  | Subplots
  | Broken_barh int int 'c
  | Text_block int int string
  | Set_xticks "int list"
  | Set_xticklabels "string list"
  | Set_xticks_minor int
  | Set_xticklabels_minor "string list"
  | Grid string
  | Axvline int
  | Text_day int int int string
  | Set_yticks "int list"
  | Set_yticklabels "string list"
  | Set_xlim int int
  | Set_ylim int int
  | Set_xlabel string
  | Set_title string
  | Legend "(string \<times> 'c) list"
  | Tight_layout
  | Savefig string
  | Show

definition row_height :: int where
  "row_height = 8"

definition row_gap :: int where
  "row_gap = 7"

text \<open>\<^verbatim>\<open>sorted({room for _, _, _, _, room in entries})\<close>\<close>

definition unique_rooms :: "entry list \<Rightarrow> string list" where
  "unique_rooms es = sort (remdups (map (\<lambda>(student, day_idx, period_idx, subject, room). room) es))"

text \<open>
  \<^verbatim>\<open>{room: cmap(i % 10) for i, room in enumerate(unique_rooms)}\<close>, where \<open>cmap\<close> is
  Matplotlib's \<^verbatim>\<open>plt.get_cmap("tab10")\<close>, a parameter here.
\<close>

definition room_colors :: "(int \<Rightarrow> 'c) \<Rightarrow> entry list \<Rightarrow> (string \<times> 'c) list" where
  "room_colors cmap es =
     fold (\<lambda>(i, room) d. AList.update room (cmap (int i mod 10)) d)
       (enumerate 0 (unique_rooms es)) []"

text \<open>The loop over \<^verbatim>\<open>enumerate(reversed_students)\<close> that fills \<^verbatim>\<open>y_map\<close>.\<close>

definition row_y :: "nat \<Rightarrow> int" where
  "row_y idx = 10 + int idx * (row_height + row_gap)"

definition y_map :: "string list \<Rightarrow> (string \<times> int) list" where
  "y_map sts =
     fold (\<lambda>(idx, student) d. AList.update student (row_y idx) d) (enumerate 0 (rev sts)) []"

text \<open>The loop that draws the lesson blocks; either dictionary read may raise.\<close>

definition draw_block ::
  "(string \<times> 'c) list \<Rightarrow> (string \<times> int) list \<Rightarrow> int \<Rightarrow> entry \<Rightarrow> error + 'c call list" where
  "draw_block rc ym period_count e =
     (case e of (student, day_idx, period_idx, subject, room) \<Rightarrow>
        let start = day_idx * period_count + period_idx in
        (case getitem rc room of
           Inl err \<Rightarrow> Inl err
         | Inr color \<Rightarrow>
             (case getitem ym student of
                Inl err \<Rightarrow> Inl err
              | Inr y \<Rightarrow> Inr [Broken_barh start y color, Text_block start y subject])))"

text \<open>\<^verbatim>\<open>max(y_map.values())\<close> raises \<^verbatim>\<open>ValueError\<close> on an empty dictionary.\<close>

definition py_max :: "int list \<Rightarrow> error + int" where
  "py_max ys = (case ys of [] \<Rightarrow> Inl ValueError | y # ys' \<Rightarrow> Inr (fold max ys' y))"

definition plot_schedule ::
  "(int \<Rightarrow> 'c) \<Rightarrow> entry list \<Rightarrow> string list \<Rightarrow> string list \<Rightarrow> int list \<Rightarrow> string
     \<Rightarrow> error + 'c call list" where
  "plot_schedule cmap es sts ds ps output_path =
     (if es = [] then Inr [Print ''No entries to plot.'']
      else
        let period_count = len ps;
            total_slots = len ds * period_count;
            rc = room_colors cmap es;
            ym = y_map sts;
            y_ticks = map (\<lambda>(idx, student). row_y idx) (enumerate 0 (rev sts));
            y_labels = rev sts
        in
        (case for_each (draw_block rc ym period_count) es of
          Inl err \<Rightarrow> Inl err
        | Inr blocks \<Rightarrow>
            (case py_max (dict_values ym) of
               Inl err \<Rightarrow> Inl err
             | Inr m \<Rightarrow>
                 let top_y = m + row_height + 4 in
                 (case for_each (\<lambda>room. case getitem rc room of
                                          Inl err \<Rightarrow> Inl err
                                        | Inr color \<Rightarrow> Inr (room, color))
                        (unique_rooms es) of
                   Inl err \<Rightarrow> Inl err
                 | Inr legend_handles \<Rightarrow>
                     Inr ([Subplots]
                          @ concat blocks
                          @ [Set_xticks (py_range (nat (total_slots + 1))),
                             Set_xticklabels [],
                             Set_xticks_minor total_slots,
                             Set_xticklabels_minor
                               (concat (map (\<lambda>day_name. map (\<lambda>period_idx.
                                  day_name @ [CHR 0x0A] @ ''P'' @ str_int (period_idx + 1)) ps) ds)),
                             Grid ''x'', Grid ''y'']
                          @ map (\<lambda>day_idx. Axvline (day_idx * period_count))
                              (py_range (length ds + 1))
                          @ map (\<lambda>(day_idx, day_name).
                                   Text_day (int day_idx * period_count) period_count top_y day_name)
                              (enumerate 0 ds)
                          @ [Set_yticks y_ticks,
                             Set_yticklabels y_labels,
                             Set_xlim 0 total_slots,
                             Set_ylim 8 (top_y + 3),
                             Set_xlabel ''Week timeline'',
                             Set_title ''School schedule Gantt view'',
                             Legend legend_handles,
                             Tight_layout,
                             Savefig output_path,
                             Print (''Chart saved to: '' @ output_path),
                             Show])))))"


section \<open>scenario\_b\_feasible.py: solving, decoding and reporting\<close>

text \<open>
  The status codes of OR-Tools' \<^verbatim>\<open>CpSolverStatus\<close> enumeration, which
  \<^verbatim>\<open>cp_model.OPTIMAL\<close> and its siblings name.
\<close>

definition UNKNOWN :: int where "UNKNOWN = 0"
definition MODEL_INVALID :: int where "MODEL_INVALID = 1"
definition FEASIBLE :: int where "FEASIBLE = 2"
definition INFEASIBLE :: int where "INFEASIBLE = 3"
definition OPTIMAL :: int where "OPTIMAL = 4"

definition cp_statuses :: "int list" where
  "cp_statuses = [UNKNOWN, MODEL_INVALID, FEASIBLE, INFEASIBLE, OPTIMAL]"

text \<open>The dictionary literal with \<^verbatim>\<open>.get(status, str(status))\<close>.\<close>

definition status_name :: "int \<Rightarrow> string" where
  "status_name status =
     (case map_of [(OPTIMAL, ''OPTIMAL''), (FEASIBLE, ''FEASIBLE''),
                   (INFEASIBLE, ''INFEASIBLE''), (MODEL_INVALID, ''MODEL_INVALID''),
                   (UNKNOWN, ''UNKNOWN'')] status of
        Some name \<Rightarrow> name
      | None \<Rightarrow> str_int status)"

text \<open>
  The decoding loops. The state is what the loops update: the list
  \<^verbatim>\<open>entries\<close>, the printed lines and the flag \<^verbatim>\<open>found\<close>.
\<close>

record dstate =
  entries :: "entry list"
  out :: "string list"
  found :: bool

definition slot_label :: "config \<Rightarrow> int \<Rightarrow> int \<Rightarrow> string" where
  "slot_label cfg d p = days cfg ! nat d @ '' Period '' @ str_int (p + 1) @ '': ''"

definition decode_var ::
  "config \<Rightarrow> (key \<Rightarrow> bool) \<Rightarrow> string \<Rightarrow> int \<Rightarrow> int \<Rightarrow> string \<Rightarrow> string \<Rightarrow> dstate \<Rightarrow> dstate" where
  "decode_var cfg v s d p subj r st =
     (if v (s, subj, d, p, r)
      then st\<lparr> out := out st @ [slot_label cfg d p @ subj @ '' in '' @ r],
               entries := entries st @ [(s, d, p, subj, r)],
               found := True \<rparr>
      else st)"

definition decode_slot ::
  "config \<Rightarrow> (key \<Rightarrow> bool) \<Rightarrow> string \<Rightarrow> int \<Rightarrow> int \<Rightarrow> dstate \<Rightarrow> dstate" where
  "decode_slot cfg v s d p st =
     (let st' = fold (\<lambda>subj. fold (decode_var cfg v s d p subj) (dict_values (rooms cfg)))
                  (subjects cfg) (st\<lparr> found := False \<rparr>)
      in if \<not> found st' then st'\<lparr> out := out st' @ [slot_label cfg d p @ ''---''] \<rparr> else st')"

definition decode_student :: "config \<Rightarrow> (key \<Rightarrow> bool) \<Rightarrow> string \<Rightarrow> dstate \<Rightarrow> dstate" where
  "decode_student cfg v s st =
     fold (\<lambda>d. fold (decode_slot cfg v s d) (periods cfg)) (day_range cfg)
       (st\<lparr> out := out st @ [CHR 0x0A # ''Schedule for '' @ s] \<rparr>)"

definition decode :: "config \<Rightarrow> (key \<Rightarrow> bool) \<Rightarrow> dstate" where
  "decode cfg v =
     fold (decode_student cfg v) (students cfg) \<lparr> entries = [], out = [], found = False \<rparr>"

text \<open>
  The whole script. The solver is the external library: \<open>solve\<close> stands for
  \<^verbatim>\<open>solver.Solve(model)\<close> followed by \<^verbatim>\<open>solver.Value\<close>, and returns the status and
  the value of every variable; its time limit and the search log it prints are
  its own and are not part of the trace. An exception ends the script: the
  result is then the exception alone.
\<close>

definition required_A_lessons :: "config \<Rightarrow> error + int" where
  "required_A_lessons cfg =
     (case getitem (subject_hours cfg) ''A'' of
        Inl e \<Rightarrow> Inl e
      | Inr h \<Rightarrow> Inr (len (students cfg) * h))"

definition t1_capacity :: "config \<Rightarrow> int" where
  "t1_capacity cfg = len (periods cfg) * len (allowed_days_t1 cfg)"

definition run ::
  "(int \<Rightarrow> 'c) \<Rightarrow> (cp_model \<Rightarrow> int \<times> (key \<Rightarrow> bool)) \<Rightarrow> config \<Rightarrow> error + 'c call list" where
  "run cmap solve cfg =
     (case required_A_lessons cfg of
        Inl e \<Rightarrow> Inl e
      | Inr required \<Rightarrow>
          let check = [Print ''Quick sanity check:'',
                       Print (''Required A lessons: '' @ str_int required),
                       Print (''T1 capacity on allowed days: '' @ str_int (t1_capacity cfg))]
          in
          (case build cfg of
             Inl e \<Rightarrow> Inl e
           | Inr model \<Rightarrow>
               (case solve model of (status, v) \<Rightarrow>
                  let report = [Solver_Solve,
                                Print (CHR 0x0A # ''Solver status: '' @ status_name status)]
                  in
                  if status \<in> set [OPTIMAL, FEASIBLE]
                  then
                    let st = decode cfg v in
                    (case plot_schedule cmap (entries st) (students cfg) (days cfg) (periods cfg)
                            ''scenario_b_gantt.png'' of
                       Inl e \<Rightarrow> Inl e
                     | Inr chart \<Rightarrow>
                         Inr (check @ report @ map Print (out st)
                              @ [Call_plot_schedule (entries st)] @ chart))
                  else Inr (check @ report @ [Print ''No feasible schedule found.'']))))"


section \<open>Vocabulary of the statements\<close>

text \<open>
  The decoded schedule as a comprehension: students, days and periods in their
  given order, and one entry for each variable that is true.
\<close>

definition schedule :: "config \<Rightarrow> (key \<Rightarrow> bool) \<Rightarrow> entry list" where
  "schedule cfg v =
     concat (map (\<lambda>s. concat (map (\<lambda>d. concat (map (\<lambda>p. concat (map (\<lambda>subj.
       concat (map (\<lambda>r. if v (s, subj, d, p, r) then [(s, d, p, subj, r)] else [])
         (dict_values (rooms cfg))))
       (subjects cfg))) (periods cfg))) (day_range cfg))) (students cfg))"

text \<open>
  The identifiers of a data section are pairwise different, as they are in the
  script: no student, subject, period or room is listed twice.
\<close>

definition well_formed :: "config \<Rightarrow> bool" where
  "well_formed cfg \<longleftrightarrow>
     distinct (students cfg) \<and> distinct (subjects cfg) \<and> distinct (periods cfg)
     \<and> distinct (dict_values (rooms cfg))"


text \<open>The variables of one (student, subject) pair, in the order constraint 1 sums them.\<close>

definition scope_pair :: "config \<Rightarrow> string \<Rightarrow> string \<Rightarrow> key list" where
  "scope_pair cfg s subj =
     concat (map (\<lambda>d. concat (map (\<lambda>p.
                 map (\<lambda>r. (s, subj, d, p, r)) (dict_values (rooms cfg)))
                 (periods cfg))) (day_range cfg))"

text \<open>The entries of one (student, subject) pair.\<close>

definition entries_for :: "string \<Rightarrow> string \<Rightarrow> entry list \<Rightarrow> entry list" where
  "entries_for s subj es = filter (\<lambda>(s', d, p, subj', r). s' = s \<and> subj' = subj) es"

text \<open>
  The penalty of a list of entries: the number of entries whose room differs
  from \<^verbatim>\<open>rooms[subject]\<close>.
\<close>

definition penalty :: "config \<Rightarrow> entry list \<Rightarrow> nat" where
  "penalty cfg es =
     length (filter (\<lambda>(s, d, p, subj, r). getitem (rooms cfg) subj \<noteq> Inr r) es)"

text \<open>The variables the script appends to \<^verbatim>\<open>penalties\<close>, with the dictionary read written out.\<close>

definition penalized :: "config \<Rightarrow> key list" where
  "penalized cfg =
     concat (map (\<lambda>(s, subj). concat (map (\<lambda>d. concat (map (\<lambda>p.
                   concat (map (\<lambda>r. if getitem (rooms cfg) subj \<noteq> Inr r then [(s, subj, d, p, r)] else [])
                     (dict_values (rooms cfg))))
                   (periods cfg))) (day_range cfg)))
       (concat (map (\<lambda>s. map (\<lambda>subj. (s, subj)) (subjects cfg)) (students cfg))))"

text \<open>
  What the status \<^verbatim>\<open>OPTIMAL\<close> of the solver certifies of the assignment it returns:
  it satisfies the model and no satisfying assignment has a smaller value of
  the expression given to \<^verbatim>\<open>model.Minimize\<close>.
\<close>

definition optimal :: "cp_model \<Rightarrow> (key \<Rightarrow> bool) \<Rightarrow> bool" where
  "optimal m v \<longleftrightarrow>
     satisfies m v \<and> (\<forall>v'. satisfies m v' \<longrightarrow> objective_value m v \<le> objective_value m v')"

text \<open>
  A small data section of the same shape as the script's (teacher T1 teaches A
  and works on day 1 only), with two assignments of its 32 variables.
\<close>

definition demo :: config where
  "demo =
     \<lparr> students = [''S1'', ''S2''],
       subjects = [''A'', ''B''],
       days = [''Mon'', ''Tue''],
       periods = py_range 2,
       rooms = [(''A'', ''Room_A''), (''B'', ''Room_B'')],
       teachers = [(''A'', ''T1''), (''B'', ''T2'')],
       subject_hours = [(''A'', 1), (''B'', 1)],
       allowed_days_t1 = [1] \<rparr>"

definition demo_model :: cp_model where
  "demo_model =
     (case build demo of
        Inr m \<Rightarrow> m
      | Inl e \<Rightarrow> \<lparr> bool_vars = [], constraints = [], minimize = [] \<rparr>)"

definition demo_v :: "key \<Rightarrow> bool" where
  "demo_v k \<longleftrightarrow>
     k \<in> set [(''S1'', ''A'', 1, 0, ''Room_A''), (''S1'', ''B'', 0, 0, ''Room_B''),
              (''S2'', ''A'', 1, 1, ''Room_A''), (''S2'', ''B'', 0, 1, ''Room_B'')]"

definition demo_v' :: "key \<Rightarrow> bool" where
  "demo_v' k \<longleftrightarrow>
     k \<in> set [(''S1'', ''A'', 1, 0, ''Room_A''), (''S1'', ''B'', 0, 0, ''Room_B''),
              (''S2'', ''A'', 1, 1, ''Room_A''), (''S2'', ''B'', 0, 1, ''Room_A'')]"

text \<open>
  The calls \<^verbatim>\<open>plot_schedule\<close> itself can make: everything but the two calls the
  script makes, of the solver and of \<^verbatim>\<open>plot_schedule\<close>.
\<close>

definition chart_call :: "'c call \<Rightarrow> bool" where
  "chart_call c \<longleftrightarrow> (case c of Solver_Solve \<Rightarrow> False | Call_plot_schedule es \<Rightarrow> False | _ \<Rightarrow> True)"

text \<open>
  Data for the statements about \<^verbatim>\<open>plot_schedule\<close>: two entries in two rooms, eleven
  entries in eleven rooms, and a colormap that returns the palette index it is
  given.
\<close>

definition two_entries :: "entry list" where
  "two_entries = [(''S1'', 0, 0, ''A'', ''Room_B''), (''S2'', 0, 1, ''A'', ''Room_A'')]"

definition eleven_rooms :: "entry list" where
  "eleven_rooms =
     map (\<lambda>i. (''S1'', 0, int i, ''A'', ''Room_'' @ str_nat (10 + i))) [0..<11]"

definition palette_index :: "int \<Rightarrow> int" where
  "palette_index i = i"

text \<open>
  The data section of the specification's scenario for the sanity check: two
  students, one subject with quota 1, and teacher T1 with no allowed day; and
  a solver that finds its model infeasible.
\<close>

definition no_day :: config where
  "no_day =
     \<lparr> students = [''S1'', ''S2''],
       subjects = [''A''],
       days = [''Mon''],
       periods = py_range 1,
       rooms = [(''A'', ''Room_A'')],
       teachers = [(''A'', ''T1'')],
       subject_hours = [(''A'', 1)],
       allowed_days_t1 = [] \<rparr>"

definition finds_infeasible :: "cp_model \<Rightarrow> int \<times> (key \<Rightarrow> bool)" where
  "finds_infeasible m = (INFEASIBLE, \<lambda>k. False)"

definition returns_demo_v :: "cp_model \<Rightarrow> int \<times> (key \<Rightarrow> bool)" where
  "returns_demo_v m = (OPTIMAL, demo_v)"






section \<open>Decoding computes the comprehension\<close>

lemma entries_fold:
  assumes "\<And>x st. entries (f x st) = entries st @ g x"
  shows "entries (fold f xs st) = entries st @ concat (map g xs)"
  using assms by (induction xs arbitrary: st) simp_all

lemma entries_decode_var:
  "entries (decode_var cfg v s d p subj r st) =
     entries st @ (if v (s, subj, d, p, r) then [(s, d, p, subj, r)] else [])"
  by (simp add: decode_var_def)

lemma entries_decode_slot:
  "entries (decode_slot cfg v s d p st) =
     entries st @ concat (map (\<lambda>subj.
       concat (map (\<lambda>r. if v (s, subj, d, p, r) then [(s, d, p, subj, r)] else [])
         (dict_values (rooms cfg)))) (subjects cfg))"
proof -
  have inner: "\<And>subj st. entries (fold (decode_var cfg v s d p subj) (dict_values (rooms cfg)) st) =
      entries st @ concat (map (\<lambda>r. if v (s, subj, d, p, r) then [(s, d, p, subj, r)] else [])
         (dict_values (rooms cfg)))"
    by (rule entries_fold) (rule entries_decode_var)
  have "entries (fold (\<lambda>subj. fold (decode_var cfg v s d p subj) (dict_values (rooms cfg)))
                  (subjects cfg) (st\<lparr>found := False\<rparr>)) =
        entries (st\<lparr>found := False\<rparr>) @ concat (map (\<lambda>subj.
       concat (map (\<lambda>r. if v (s, subj, d, p, r) then [(s, d, p, subj, r)] else [])
         (dict_values (rooms cfg)))) (subjects cfg))"
    by (rule entries_fold) (rule inner)
  then show ?thesis
    by (simp add: decode_slot_def Let_def)
qed

lemma entries_decode_student:
  "entries (decode_student cfg v s st) =
     entries st @ concat (map (\<lambda>d. concat (map (\<lambda>p. concat (map (\<lambda>subj.
       concat (map (\<lambda>r. if v (s, subj, d, p, r) then [(s, d, p, subj, r)] else [])
         (dict_values (rooms cfg))))
       (subjects cfg))) (periods cfg))) (day_range cfg))"
proof -
  have inner: "\<And>d st. entries (fold (decode_slot cfg v s d) (periods cfg) st) =
      entries st @ concat (map (\<lambda>p. concat (map (\<lambda>subj.
       concat (map (\<lambda>r. if v (s, subj, d, p, r) then [(s, d, p, subj, r)] else [])
         (dict_values (rooms cfg))))
       (subjects cfg))) (periods cfg))"
    by (rule entries_fold) (rule entries_decode_slot)
  show ?thesis
    unfolding decode_student_def
    by (subst entries_fold [where g = "\<lambda>d. concat (map (\<lambda>p. concat (map (\<lambda>subj.
       concat (map (\<lambda>r. if v (s, subj, d, p, r) then [(s, d, p, subj, r)] else [])
         (dict_values (rooms cfg))))
       (subjects cfg))) (periods cfg))"]) (simp_all add: inner)
qed

lemma entries_decode_from:
  "entries (fold (decode_student cfg v) (students cfg) st) = entries st @ schedule cfg v"
  unfolding schedule_def
  by (rule entries_fold) (rule entries_decode_student)

lemma entries_decode: "entries (decode cfg v) = schedule cfg v"
  by (simp add: decode_def entries_decode_from)

lemma set_schedule:
  "set (schedule cfg v) =
     {(s, d, p, subj, r). s \<in> set (students cfg) \<and> d \<in> set (day_range cfg) \<and> p \<in> set (periods cfg)
        \<and> subj \<in> set (subjects cfg) \<and> r \<in> set (dict_values (rooms cfg)) \<and> v (s, subj, d, p, r)}"
  by (auto simp: schedule_def split: if_splits)

lemma distinct_concat_map:
  assumes "distinct xs"
    and "\<And>x. x \<in> set xs \<Longrightarrow> distinct (f x)"
    and "\<And>x y. x \<in> set xs \<Longrightarrow> y \<in> set xs \<Longrightarrow> x \<noteq> y \<Longrightarrow> set (f x) \<inter> set (f y) = {}"
  shows "distinct (concat (map f xs))"
  using assms by (induction xs) fastforce+


section \<open>Loops that may raise, the built model and sums of variables\<close>

lemma distinct_py_range: "distinct (py_range n)"
  by (simp add: py_range_def distinct_map inj_on_def)

lemma distinct_schedule:
  assumes "well_formed cfg"
  shows "distinct (schedule cfg v)"
  unfolding schedule_def using assms
  by (auto simp: well_formed_def day_range_def distinct_py_range
        intro!: distinct_concat_map split: if_splits)

lemma for_each_Inr_nth:
  "for_each f xs = Inr ys \<Longrightarrow> length ys = length xs \<and> (\<forall>i < length xs. f (xs ! i) = Inr (ys ! i))"
proof (induction xs arbitrary: ys)
  case Nil
  then show ?case by simp
next
  case (Cons x xs)
  then obtain y ys' where y: "f x = Inr y" and ys': "for_each f xs = Inr ys'" and eq: "ys = y # ys'"
    by (auto split: sum.splits)
  from Cons.IH [OF ys'] y eq show ?case
    by (auto simp: nth_Cons split: nat.splits)
qed

lemma for_each_Inr_mem:
  assumes "for_each f xs = Inr ys" and "x \<in> set xs"
  shows "\<exists>y \<in> set ys. f x = Inr y"
proof -
  from assms(2) obtain i where "i < length xs" "xs ! i = x"
    by (auto simp: in_set_conv_nth)
  with for_each_Inr_nth [OF assms(1)] show ?thesis
    by (metis nth_mem)
qed

lemma for_each_Inr_mem_rev:
  assumes "for_each f xs = Inr ys" and "y \<in> set ys"
  shows "\<exists>x \<in> set xs. f x = Inr y"
proof -
  from assms(2) obtain i where "i < length ys" "ys ! i = y"
    by (auto simp: in_set_conv_nth)
  with for_each_Inr_nth [OF assms(1)] show ?thesis
    by (metis nth_mem)
qed

lemma for_each_total:
  assumes "\<And>x. x \<in> set xs \<Longrightarrow> \<exists>y. f x = Inr y"
  shows "\<exists>ys. for_each f xs = Inr ys"
  using assms
proof (induction xs)
  case Nil
  then show ?case by simp
next
  case (Cons x xs)
  then obtain y ys where "f x = Inr y" "for_each f xs = Inr ys"
    by (metis list.set_intros(1) list.set_intros(2))
  then show ?case by simp
qed

lemma build_Inr:
  assumes "build cfg = Inr m"
  obtains c1 c5 pen where "weekly_hours cfg = Inr c1" "t1_days cfg = Inr c5" "penalties cfg = Inr pen"
    "constraints m = c1 @ student_slot cfg @ room_slot cfg @ teacher_slot cfg @ concat c5"
    "minimize m = concat pen" "bool_vars m = decision_variables cfg"
  using assms by (auto simp: build_def split: sum.splits)

lemma satisfies_mem: "satisfies m v \<Longrightarrow> c \<in> set (constraints m) \<Longrightarrow> holds v c"
  by (simp add: satisfies_def list_all_iff)

lemma pairs_mem:
  "(s, subj) \<in> set (concat (map (\<lambda>s. map (\<lambda>subj. (s, subj)) (subjects cfg)) (students cfg)))
     \<longleftrightarrow> s \<in> set (students cfg) \<and> subj \<in> set (subjects cfg)"
  by auto

lemma weekly_hours_mem:
  assumes "build cfg = Inr m" "s \<in> set (students cfg)" "subj \<in> set (subjects cfg)"
  shows "\<exists>h. map_of (subject_hours cfg) subj = Some h \<and> Sum_eq (scope_pair cfg s subj) h \<in> set (constraints m)"
proof -
  from assms(1) obtain c1 c5 pen where c1: "weekly_hours cfg = Inr c1"
    and cs: "constraints m = c1 @ student_slot cfg @ room_slot cfg @ teacher_slot cfg @ concat c5"
    by (rule build_Inr)
  from assms(2,3) have pr: "(s, subj) \<in> set (concat (map (\<lambda>s. map (\<lambda>subj. (s, subj)) (subjects cfg)) (students cfg)))"
    by (simp only: pairs_mem)
  have "\<exists>y\<in>set c1. (\<lambda>(s, subj).
        case getitem (subject_hours cfg) subj of
          Inl e \<Rightarrow> Inl e
        | Inr h \<Rightarrow>
            Inr (Sum_eq
              (concat (map (\<lambda>d. concat (map (\<lambda>p.
                 map (\<lambda>r. (s, subj, d, p, r)) (dict_values (rooms cfg)))
                 (periods cfg))) (day_range cfg)))
              h)) (s, subj) = Inr y"
    by (rule for_each_Inr_mem [OF c1 [unfolded weekly_hours_def] pr])
  then obtain y where y: "y \<in> set c1" and
    eq: "(case getitem (subject_hours cfg) subj of
          Inl e \<Rightarrow> Inl e
        | Inr h \<Rightarrow> Inr (Sum_eq (scope_pair cfg s subj) h)) = Inr y"
    unfolding scope_pair_def by auto
  show ?thesis
  proof (cases "map_of (subject_hours cfg) subj")
    case None
    with eq show ?thesis by (simp add: getitem_def)
  next
    case (Some h)
    with eq have "y = Sum_eq (scope_pair cfg s subj) h" by (simp add: getitem_def)
    with y cs Some show ?thesis by simp
  qed
qed




lemma t1_days_mem:
  assumes "build cfg = Inr m" "s \<in> set (students cfg)" "subj \<in> set (subjects cfg)"
    "map_of (teachers cfg) subj = Some ''T1''"
    "d \<in> set (day_range cfg)" "d \<notin> set (allowed_days_t1 cfg)" "p \<in> set (periods cfg)"
    "r \<in> set (dict_values (rooms cfg))"
  shows "Sum_eq [(s, subj, d, p, r)] 0 \<in> set (constraints m)"
proof -
  from assms(1) obtain c1 c5 pen where c5: "t1_days cfg = Inr c5"
    and cs: "constraints m = c1 @ student_slot cfg @ room_slot cfg @ teacher_slot cfg @ concat c5"
    by (rule build_Inr)
  from assms(2,3) have "(s, subj) \<in> set (concat (map (\<lambda>s. map (\<lambda>subj. (s, subj)) (subjects cfg)) (students cfg)))"
    by (simp only: pairs_mem)
  from for_each_Inr_mem [OF c5 [unfolded t1_days_def] this] assms(4)
  obtain c where c: "c \<in> set c5" and
    ceq: "c = concat (map (\<lambda>d.
                        if d \<notin> set (allowed_days_t1 cfg)
                        then concat (map (\<lambda>p.
                               map (\<lambda>r. Sum_eq [(s, subj, d, p, r)] 0)
                                 (dict_values (rooms cfg)))
                               (periods cfg))
                        else [])
                        (day_range cfg))"
    by (auto simp: getitem_def)
  have "Sum_eq [(s, subj, d, p, r)] 0 \<in> set c"
    unfolding ceq using assms(5-8) by auto
  with c cs show ?thesis by auto
qed

lemma sum_true_nonneg: "0 \<le> sum_true v ks"
  by (induction ks) (simp_all add: sum_true_def)

lemma sum_true_Cons: "sum_true v (k # ks) = (if v k then 1 else 0) + sum_true v ks"
  by (simp add: sum_true_def)



lemma sum_true_card:
  "distinct ks \<Longrightarrow> sum_true v ks = int (card {k \<in> set ks. v k})"
proof (induction ks)
  case Nil
  then show ?case by (simp add: sum_true_def)
next
  case (Cons a ks)
  show ?case
  proof (cases "v a")
    case True
    have "{k \<in> set (a # ks). v k} = insert a {k \<in> set ks. v k}"
      using True by auto
    moreover have notin: "a \<notin> {k \<in> set ks. v k}" and fin: "finite {k \<in> set ks. v k}"
      using Cons.prems by auto
    ultimately have "card {k \<in> set (a # ks). v k} = Suc (card {k \<in> set ks. v k})"
      using card_insert_disjoint [OF fin notin] by simp
    with Cons True show ?thesis
      by (simp add: sum_true_Cons)
  next
    case False
    have "{k \<in> set (a # ks). v k} = {k \<in> set ks. v k}"
      using False by auto
    with Cons False show ?thesis
      by (simp add: sum_true_Cons)
  qed
qed


section \<open>Counting the entries of a pair\<close>

lemma schedule_mem:
  "(s, d, p, subj, r) \<in> set (schedule cfg v) \<longleftrightarrow>
     s \<in> set (students cfg) \<and> d \<in> set (day_range cfg) \<and> p \<in> set (periods cfg)
        \<and> subj \<in> set (subjects cfg) \<and> r \<in> set (dict_values (rooms cfg)) \<and> v (s, subj, d, p, r)"
  by (simp add: set_schedule)

lemma scope_pair_mem:
  "k \<in> set (scope_pair cfg s subj) \<longleftrightarrow>
     (\<exists>d p r. k = (s, subj, d, p, r) \<and> d \<in> set (day_range cfg) \<and> p \<in> set (periods cfg)
        \<and> r \<in> set (dict_values (rooms cfg)))"
  by (auto simp: scope_pair_def)

lemma distinct_scope_pair:
  assumes "well_formed cfg"
  shows "distinct (scope_pair cfg s subj)"
  unfolding scope_pair_def using assms
  by (auto simp: well_formed_def day_range_def distinct_py_range distinct_map inj_on_def
        intro!: distinct_concat_map)

lemma card_entries_for:
  assumes wf: "well_formed cfg"
    and that: "s \<in> set (students cfg)" "subj \<in> set (subjects cfg)"
  shows "length (entries_for s subj (schedule cfg v)) = card {k \<in> set (scope_pair cfg s subj). v k}"
proof -
  let ?f = "\<lambda>(s', d, p, subj', r). (s', subj', d, p, r) :: key"
  let ?E = "{e \<in> set (schedule cfg v). (\<lambda>(s', d, p, subj', r). s' = s \<and> subj' = subj) e}"
  let ?P = "\<lambda>(s', d, p, subj', r). s' = s \<and> subj' = subj"
  have "length (filter ?P (schedule cfg v)) = card ({e. ?P e} \<inter> set (schedule cfg v))"
    by (rule distinct_length_filter [OF distinct_schedule [OF wf]])
  moreover have "{e. ?P e} \<inter> set (schedule cfg v) = ?E"
    by blast
  ultimately have "length (entries_for s subj (schedule cfg v)) = card ?E"
    unfolding entries_for_def by (simp only:)
  moreover have "?f ` ?E = {k \<in> set (scope_pair cfg s subj). v k}"
  proof (rule set_eqI)
    fix k :: key
    obtain s' subj' d p r where k: "k = (s', subj', d, p, r)" by (cases k) auto
    show "k \<in> ?f ` ?E \<longleftrightarrow> k \<in> {k \<in> set (scope_pair cfg s subj). v k}"
    proof
      assume "k \<in> ?f ` ?E"
      then obtain e where e: "e \<in> ?E" "k = ?f e" by blast
      obtain s2 d2 p2 subj2 r2 where e2: "e = (s2, d2, p2, subj2, r2)" by (cases e) auto
      from e e2 k show "k \<in> {k \<in> set (scope_pair cfg s subj). v k}"
        by (auto simp: schedule_mem scope_pair_mem)
    next
      assume "k \<in> {k \<in> set (scope_pair cfg s subj). v k}"
      with k that have "(s', d, p, subj', r) \<in> ?E"
        by (auto simp: schedule_mem scope_pair_mem)
      moreover have "k = ?f (s', d, p, subj', r)" by (simp add: k)
      ultimately show "k \<in> ?f ` ?E" by (rule rev_image_eqI)
    qed
  qed
  moreover have "inj_on ?f ?E"
    by (auto simp: inj_on_def)
  then have "card (?f ` ?E) = card ?E"
    by (rule card_image)
  ultimately show ?thesis
    by (simp only:)
qed


section \<open>At most one true variable in a scope bounded by one\<close>



lemma for_each_Inr_map: "for_each f xs = Inr ys \<Longrightarrow> ys = map (projr \<circ> f) xs"
  by (induction xs arbitrary: ys) (auto split: sum.splits)


section \<open>The objective counts the entries outside the preferred room\<close>

lemma penalties_penalized:
  assumes "penalties cfg = Inr pen"
  shows "concat pen = penalized cfg"
proof -
  let ?pairs = "concat (map (\<lambda>s. map (\<lambda>subj. (s, subj)) (subjects cfg)) (students cfg))"
  let ?f = "\<lambda>(s, subj).
        case getitem (rooms cfg) subj of
          Inl e \<Rightarrow> Inl e
        | Inr preferred_room \<Rightarrow>
            Inr (concat (map (\<lambda>d. concat (map (\<lambda>p.
                   concat (map (\<lambda>r. if r \<noteq> preferred_room then [(s, subj, d, p, r)] else [])
                     (dict_values (rooms cfg))))
                   (periods cfg))) (day_range cfg)))"
  let ?g = "\<lambda>(s, subj). concat (map (\<lambda>d. concat (map (\<lambda>p.
                   concat (map (\<lambda>r. if getitem (rooms cfg) subj \<noteq> Inr r then [(s, subj, d, p, r)] else [])
                     (dict_values (rooms cfg))))
                   (periods cfg))) (day_range cfg))"
  from assms have fe: "for_each ?f ?pairs = Inr pen" by (simp add: penalties_def)
  then have pen: "pen = map (projr \<circ> ?f) ?pairs" by (rule for_each_Inr_map)
  have "(projr \<circ> ?f) x = ?g x" if "x \<in> set ?pairs" for x
  proof -
    obtain s subj where x: "x = (s, subj)" by (cases x)
    from for_each_Inr_mem [OF fe that] obtain y where "?f x = Inr y" by blast
    with x obtain pr where pr: "getitem (rooms cfg) subj = Inr pr"
      by (auto split: sum.splits)
    have comm: "(r \<noteq> pr) = (pr \<noteq> r)" for r
      by auto
    from x pr show ?thesis by (simp add: comm)
  qed
  then have "map (projr \<circ> ?f) ?pairs = map ?g ?pairs" by (rule map_cong [OF refl])
  with pen show ?thesis by (simp add: penalized_def)
qed

lemma penalized_mem:
  "(s, subj, d, p, r) \<in> set (penalized cfg) \<longleftrightarrow>
     s \<in> set (students cfg) \<and> subj \<in> set (subjects cfg) \<and> d \<in> set (day_range cfg)
     \<and> p \<in> set (periods cfg) \<and> r \<in> set (dict_values (rooms cfg))
     \<and> getitem (rooms cfg) subj \<noteq> Inr r"
  by (auto simp: penalized_def split: if_splits)

lemma distinct_pairs:
  "distinct xs \<Longrightarrow> distinct ys \<Longrightarrow> distinct (concat (map (\<lambda>x. map (\<lambda>y. (x, y)) ys) xs))"
  by (auto intro!: distinct_concat_map simp: distinct_map inj_on_def)

lemma distinct_penalized:
  assumes "well_formed cfg"
  shows "distinct (penalized cfg)"
  unfolding penalized_def using assms
  by (auto simp: well_formed_def day_range_def distinct_py_range distinct_map inj_on_def
        intro!: distinct_concat_map split: if_splits)

lemma length_filter_schedule:
  assumes wf: "well_formed cfg"
  shows "length (filter Q (schedule cfg v)) =
         card {(s, subj, d, p, r). (s, d, p, subj, r) \<in> set (schedule cfg v) \<and> Q (s, d, p, subj, r)}"
proof -
  let ?f = "\<lambda>(s, d, p, subj, r). (s, subj, d, p, r) :: key"
  let ?E = "{e. Q e} \<inter> set (schedule cfg v)"
  have len: "length (filter Q (schedule cfg v)) = card ?E"
    by (rule distinct_length_filter [OF distinct_schedule [OF wf]])
  have img: "?f ` ?E =
      {(s, subj, d, p, r). (s, d, p, subj, r) \<in> set (schedule cfg v) \<and> Q (s, d, p, subj, r)}"
  proof (rule set_eqI)
    fix k :: key
    obtain s subj d p r where k: "k = (s, subj, d, p, r)" by (cases k) auto
    show "k \<in> ?f ` ?E \<longleftrightarrow>
          k \<in> {(s, subj, d, p, r). (s, d, p, subj, r) \<in> set (schedule cfg v) \<and> Q (s, d, p, subj, r)}"
    proof
      assume "k \<in> ?f ` ?E"
      then obtain e where e: "e \<in> ?E" "k = ?f e" by blast
      obtain s2 d2 p2 subj2 r2 where e2: "e = (s2, d2, p2, subj2, r2)" by (cases e) auto
      from e e2 k show "k \<in> {(s, subj, d, p, r). (s, d, p, subj, r) \<in> set (schedule cfg v)
                                \<and> Q (s, d, p, subj, r)}"
        by auto
    next
      assume "k \<in> {(s, subj, d, p, r). (s, d, p, subj, r) \<in> set (schedule cfg v)
                       \<and> Q (s, d, p, subj, r)}"
      with k have "(s, d, p, subj, r) \<in> ?E" by auto
      moreover have "k = ?f (s, d, p, subj, r)" by (simp add: k)
      ultimately show "k \<in> ?f ` ?E" by (rule rev_image_eqI)
    qed
  qed
  have "inj_on ?f ?E" by (auto simp: inj_on_def)
  then have "card (?f ` ?E) = card ?E" by (rule card_image)
  with len img show ?thesis by (simp only:)
qed

lemma objective_penalty:
  assumes wf: "well_formed cfg" and b: "build cfg = Inr m"
  shows "objective_value m v =
           int (card {(s, subj, d, p, r). s \<in> set (students cfg) \<and> subj \<in> set (subjects cfg)
                  \<and> d \<in> set (day_range cfg) \<and> p \<in> set (periods cfg)
                  \<and> r \<in> set (dict_values (rooms cfg))
                  \<and> v (s, subj, d, p, r) \<and> getitem (rooms cfg) subj \<noteq> Inr r})"
    and "objective_value m v = int (penalty cfg (entries (decode cfg v)))"
proof -
  from b obtain c1 c5 pen where pen: "penalties cfg = Inr pen" and mn: "minimize m = concat pen"
    by (rule build_Inr)
  from mn penalties_penalized [OF pen] have "objective_value m v = sum_true v (penalized cfg)"
    by (simp add: objective_value_def)
  also have "\<dots> = int (card {k \<in> set (penalized cfg). v k})"
    by (rule sum_true_card [OF distinct_penalized [OF wf]])
  finally have obj: "objective_value m v = int (card {k \<in> set (penalized cfg). v k})" .
  have s1: "{k \<in> set (penalized cfg). v k} =
        {(s, subj, d, p, r). s \<in> set (students cfg) \<and> subj \<in> set (subjects cfg)
                  \<and> d \<in> set (day_range cfg) \<and> p \<in> set (periods cfg)
                  \<and> r \<in> set (dict_values (rooms cfg))
                  \<and> v (s, subj, d, p, r) \<and> getitem (rooms cfg) subj \<noteq> Inr r}"
    by (auto simp: penalized_mem)
  with obj show "objective_value m v =
           int (card {(s, subj, d, p, r). s \<in> set (students cfg) \<and> subj \<in> set (subjects cfg)
                  \<and> d \<in> set (day_range cfg) \<and> p \<in> set (periods cfg)
                  \<and> r \<in> set (dict_values (rooms cfg))
                  \<and> v (s, subj, d, p, r) \<and> getitem (rooms cfg) subj \<noteq> Inr r})"
    by (simp only:)
  have s2: "{k \<in> set (penalized cfg). v k} =
        {(s, subj, d, p, r). (s, d, p, subj, r) \<in> set (schedule cfg v)
           \<and> (\<lambda>(s, d, p, subj, r). getitem (rooms cfg) subj \<noteq> Inr r) (s, d, p, subj, r)}"
    by (auto simp: penalized_mem schedule_mem)
  have "penalty cfg (entries (decode cfg v)) =
        length (filter (\<lambda>(s, d, p, subj, r). getitem (rooms cfg) subj \<noteq> Inr r) (schedule cfg v))"
    by (simp add: penalty_def entries_decode)
  also have "\<dots> = card {k \<in> set (penalized cfg). v k}"
    unfolding s2 by (rule length_filter_schedule [OF wf])
  finally show "objective_value m v = int (penalty cfg (entries (decode cfg v)))"
    using obj by simp
qed


section \<open>The dictionaries of plot\_schedule\<close>

lemma map_of_fold_update:
  "map_of (fold (\<lambda>(i, k) d. AList.update k (g i) d) ps d) =
     fold (\<lambda>(i, k) m. m(k \<mapsto> g i)) ps (map_of d)"
  by (induction ps arbitrary: d) (auto simp: update_conv')

lemma fold_upd_other:
  "k \<notin> snd ` set ps \<Longrightarrow> fold (\<lambda>(i, k) m. m(k \<mapsto> g i)) ps m k = m k"
  by (induction ps arbitrary: m) (auto split: prod.splits)

lemma fold_upd_mem:
  "distinct (map snd ps) \<Longrightarrow> (i, k) \<in> set ps \<Longrightarrow>
     fold (\<lambda>(i, k) m. m(k \<mapsto> g i)) ps m k = Some (g i)"
proof (induction ps arbitrary: m)
  case Nil
  then show ?case by simp
next
  case (Cons a ps)
  obtain i' k' where a: "a = (i', k')" by (cases a)
  show ?case
  proof (cases "(i, k) = a")
    case True
    with Cons.prems a have "k \<notin> snd ` set ps" by auto
    from fold_upd_other [OF this, of g "m(k \<mapsto> g i)"] True a show ?thesis
      by (simp del: fun_upd_apply add: fun_upd_same)
  next
    case False
    with Cons.prems have mem: "(i, k) \<in> set ps" and d: "distinct (map snd ps)"
      by auto
    from Cons.IH [OF d mem, of "m(k' \<mapsto> g i')"] a show ?thesis
      by (simp del: fun_upd_apply)
  qed
qed

lemma dom_fold_upd:
  "dom (fold (\<lambda>(i, k) m. m(k \<mapsto> g i)) ps m) = dom m \<union> snd ` set ps"
  by (induction ps arbitrary: m) (auto split: prod.splits)

lemma snd_enumerate: "map snd (enumerate n xs) = xs"
  by (simp add: enumerate_eq_zip)

lemma set_unique_rooms:
  "set (unique_rooms es) = (\<lambda>(student, day_idx, period_idx, subject, room). room) ` set es"
  by (simp add: unique_rooms_def)

lemma distinct_unique_rooms: "distinct (unique_rooms es)"
  by (simp add: unique_rooms_def)

lemma dom_room_colors: "dom (map_of (room_colors cmap es)) = set (unique_rooms es)"
proof -
  have "snd ` set (enumerate 0 (unique_rooms es)) = set (unique_rooms es)"
    using snd_enumerate [of 0 "unique_rooms es"] by (metis set_map)
  then show ?thesis
    by (simp add: room_colors_def map_of_fold_update dom_fold_upd)
qed

lemma room_colors_nth:
  assumes "i < length (unique_rooms es)"
  shows "map_of (room_colors cmap es) (unique_rooms es ! i) = Some (cmap (int i mod 10))"
proof -
  have d: "distinct (map snd (enumerate 0 (unique_rooms es)))"
    by (simp add: snd_enumerate distinct_unique_rooms)
  have m: "(i, unique_rooms es ! i) \<in> set (enumerate 0 (unique_rooms es))"
    using assms by (simp add: in_set_enumerate_eq)
  show ?thesis
    unfolding room_colors_def map_of_fold_update
    using fold_upd_mem [OF d m, of "\<lambda>i. cmap (int i mod 10)" "map_of []"] by simp
qed

lemma dom_y_map: "dom (map_of (y_map sts)) = set sts"
proof -
  have "snd ` set (enumerate 0 (rev sts)) = set sts"
    using snd_enumerate [of 0 "rev sts"] by (metis set_map set_rev)
  then show ?thesis
    by (simp add: y_map_def map_of_fold_update dom_fold_upd)
qed

lemma getitem_dom: "k \<in> dom (map_of d) \<Longrightarrow> \<exists>x. getitem d k = Inr x"
  by (auto simp: getitem_def)

lemma getitem_Inr_dom: "getitem d k = Inr x \<Longrightarrow> k \<in> dom (map_of d)"
  by (auto simp: getitem_def split: option.splits)


section \<open>plot\_schedule does not raise on decoded entries\<close>

lemma draw_block_total:
  assumes "(student, day_idx, period_idx, subject, room) \<in> set es" "student \<in> set sts"
  shows "\<exists>color y. draw_block (room_colors cmap es) (y_map sts) pc (student, day_idx, period_idx, subject, room)
           = Inr [Broken_barh (day_idx * pc + period_idx) y color,
                  Text_block (day_idx * pc + period_idx) y subject]"
proof -
  from assms(1) have "room \<in> set (unique_rooms es)" by (force simp: set_unique_rooms)
  then have "room \<in> dom (map_of (room_colors cmap es))" by (simp add: dom_room_colors)
  from getitem_dom [OF this] obtain color where c: "getitem (room_colors cmap es) room = Inr color" ..
  from assms(2) have "student \<in> dom (map_of (y_map sts))" by (simp add: dom_y_map)
  from getitem_dom [OF this] obtain y where y: "getitem (y_map sts) student = Inr y" ..
  from c y show ?thesis by (simp add: draw_block_def Let_def)
qed

lemma chart_call_simps:
  "chart_call (Print s)" "\<not> chart_call Solver_Solve" "\<not> chart_call (Call_plot_schedule es)"
  "chart_call Subplots" "chart_call (Broken_barh a b c)" "chart_call (Text_block a b s)"
  "chart_call (Set_xticks xs)" "chart_call (Set_xticklabels ss)" "chart_call (Set_xticks_minor a)"
  "chart_call (Set_xticklabels_minor ss)" "chart_call (Grid s)" "chart_call (Axvline a)"
  "chart_call (Text_day a b c' s)" "chart_call (Set_yticks xs)" "chart_call (Set_yticklabels ss)"
  "chart_call (Set_xlim a b)" "chart_call (Set_ylim a b)" "chart_call (Set_xlabel s)"
  "chart_call (Set_title s)" "chart_call (Legend l)" "chart_call Tight_layout"
  "chart_call (Savefig s)" "chart_call Show"
  by (simp_all add: chart_call_def)

lemma py_max_total: "ys \<noteq> [] \<Longrightarrow> \<exists>m. py_max ys = Inr m"
  by (cases ys) (simp_all add: py_max_def)

lemma plot_schedule_total:
  assumes st: "\<And>student day_idx period_idx subject room.
      (student, day_idx, period_idx, subject, room) \<in> set es \<Longrightarrow> student \<in> set sts"
  shows "\<exists>chart. plot_schedule cmap es sts ds ps output_path = Inr chart \<and> list_all chart_call chart"
proof (cases "es = []")
  case True
  then show ?thesis by (simp add: plot_schedule_def chart_call_simps)
next
  case False
  let ?rc = "room_colors cmap es"
  let ?ym = "y_map sts"
  have "\<exists>y. draw_block ?rc ?ym (len ps) e = Inr y" if "e \<in> set es" for e
  proof -
    obtain student day_idx period_idx subject room
      where e: "e = (student, day_idx, period_idx, subject, room)" by (cases e) auto
    from draw_block_total [OF that [unfolded e] st [OF that [unfolded e]], of cmap "len ps"] e
    show ?thesis by blast
  qed
  then have "\<exists>blocks. for_each (draw_block ?rc ?ym (len ps)) es = Inr blocks"
    by (rule for_each_total)
  then obtain blocks where blocks: "for_each (draw_block ?rc ?ym (len ps)) es = Inr blocks" ..
  have bl: "list_all chart_call (concat blocks)"
  proof -
    have "list_all chart_call b" if "b \<in> set blocks" for b
    proof -
      from for_each_Inr_mem_rev [OF blocks that] obtain e where
        e: "e \<in> set es" "draw_block ?rc ?ym (len ps) e = Inr b" by blast
      obtain student day_idx period_idx subject room
        where e': "e = (student, day_idx, period_idx, subject, room)" by (cases e) auto
      from draw_block_total [OF e(1) [unfolded e'] st [OF e(1) [unfolded e']], of cmap "len ps"] e(2) e'
      show ?thesis by (auto simp: chart_call_simps)
    qed
    then show ?thesis by (simp add: list_all_iff)
  qed
  from False have "hd es \<in> set es" by simp
  then obtain e where e: "e \<in> set es" ..
  obtain student day_idx period_idx subject room
    where "e = (student, day_idx, period_idx, subject, room)" by (cases e) auto
  with e st have "student \<in> set sts" by blast
  then have "dom (map_of ?ym) \<noteq> {}" by (auto simp: dom_y_map)
  then have "?ym \<noteq> []" by auto
  then have "dict_values ?ym \<noteq> []" by (simp add: dict_values_def)
  from py_max_total [OF this] obtain m where m: "py_max (dict_values ?ym) = Inr m" ..
  have "\<exists>y. (case getitem ?rc r of Inl err \<Rightarrow> Inl err | Inr color \<Rightarrow> Inr (r, color)) = Inr y"
    if "r \<in> set (unique_rooms es)" for r
  proof -
    from that have "r \<in> dom (map_of ?rc)" by (simp add: dom_room_colors)
    from getitem_dom [OF this] show ?thesis by auto
  qed
  then have "\<exists>legend_handles.
    for_each (\<lambda>room. case getitem ?rc room of Inl err \<Rightarrow> Inl err | Inr color \<Rightarrow> Inr (room, color))
       (unique_rooms es) = Inr legend_handles"
    by (rule for_each_total)
  then obtain legend_handles where lg:
    "for_each (\<lambda>room. case getitem ?rc room of Inl err \<Rightarrow> Inl err | Inr color \<Rightarrow> Inr (room, color))
       (unique_rooms es) = Inr legend_handles" ..
  from False blocks m lg bl show ?thesis
    unfolding plot_schedule_def Let_def
    by (simp add: chart_call_simps list.pred_map comp_def case_prod_beta list.pred_True)
qed


section \<open>The trace of the script\<close>

lemma decode_students:
  "(student, day_idx, period_idx, subject, room) \<in> set (entries (decode cfg v))
     \<Longrightarrow> student \<in> set (students cfg)"
  by (simp add: entries_decode schedule_mem)

lemma run_shape:
  assumes req: "required_A_lessons cfg = Inr req" and b: "build cfg = Inr m"
    and sv: "solve m = (status, v)"
  shows "\<exists>rest. run cmap solve cfg =
           Inr ([Print ''Quick sanity check:'',
                 Print (''Required A lessons: '' @ str_int req),
                 Print (''T1 capacity on allowed days: '' @ str_int (t1_capacity cfg)),
                 Solver_Solve,
                 Print (CHR 0x0A # ''Solver status: '' @ status_name status)] @ rest)
         \<and> (if status = OPTIMAL \<or> status = FEASIBLE
            then \<exists>chart. rest = map Print (out (decode cfg v))
                             @ Call_plot_schedule (entries (decode cfg v)) # chart
                         \<and> list_all chart_call chart
            else rest = [Print ''No feasible schedule found.''])"
proof (cases "status = OPTIMAL \<or> status = FEASIBLE")
  case True
  have "\<exists>chart. plot_schedule cmap (entries (decode cfg v)) (students cfg) (days cfg)
      (periods cfg) ''scenario_b_gantt.png'' = Inr chart \<and> list_all chart_call chart"
    by (rule plot_schedule_total) (rule decode_students)
  then obtain chart where chart: "plot_schedule cmap (entries (decode cfg v)) (students cfg) (days cfg)
      (periods cfg) ''scenario_b_gantt.png'' = Inr chart" and cc: "list_all chart_call chart"
    by blast
  from True req b sv chart have "run cmap solve cfg =
           Inr ([Print ''Quick sanity check:'',
                 Print (''Required A lessons: '' @ str_int req),
                 Print (''T1 capacity on allowed days: '' @ str_int (t1_capacity cfg)),
                 Solver_Solve,
                 Print (CHR 0x0A # ''Solver status: '' @ status_name status)]
                @ (map Print (out (decode cfg v))
                    @ Call_plot_schedule (entries (decode cfg v)) # chart))"
    by (auto simp: run_def Let_def)
  with True cc show ?thesis by auto
next
  case False
  with req b sv have "run cmap solve cfg =
           Inr ([Print ''Quick sanity check:'',
                 Print (''Required A lessons: '' @ str_int req),
                 Print (''T1 capacity on allowed days: '' @ str_int (t1_capacity cfg)),
                 Solver_Solve,
                 Print (CHR 0x0A # ''Solver status: '' @ status_name status)]
                @ [Print ''No feasible schedule found.''])"
    by (auto simp: run_def Let_def)
  with False show ?thesis by auto
qed

lemma chart_call_mem: "list_all chart_call chart \<Longrightarrow> c \<in> set chart \<Longrightarrow> chart_call c"
  by (simp add: list_all_iff)

lemma of_char_digit: "k < 10 \<Longrightarrow> (of_char (char_of (48 + k :: nat)) :: nat) = 48 + k"
  by simp

lemma str_nat_hd: "str_nat n \<noteq> [] \<and> (of_char (hd (str_nat n)) :: nat) < 58"
proof (induction n rule: str_nat.induct)
  case (1 n)
  show ?case
  proof (cases "n < 10")
    case True
    then show ?thesis by (subst (1 2) str_nat.simps) (simp add: of_char_digit)
  next
    case False
    with 1 show ?thesis by (subst (1 2) str_nat.simps) simp
  qed
qed

lemma str_int_not_name: "str_int i \<noteq> ''MODEL_INVALID''"
proof
  assume eq: "str_int i = ''MODEL_INVALID''"
  show False
  proof (cases "i < 0")
    case True
    with eq show False by (simp add: str_int_def)
  next
    case False
    with eq have "str_nat (nat i) = ''MODEL_INVALID''" by (simp add: str_int_def)
    with str_nat_hd [of "nat i"] show False by simp
  qed
qed

lemma status_name_MODEL_INVALID:
  "status_name status = ''MODEL_INVALID'' \<longleftrightarrow> status = MODEL_INVALID"
  by (auto simp: status_name_def OPTIMAL_def FEASIBLE_def INFEASIBLE_def MODEL_INVALID_def
        UNKNOWN_def str_int_not_name)


section \<open>The claims\<close>

text \<open>
  In the statements below an accepted assignment is an assignment \<open>v\<close> with
  \<open>satisfies m v\<close> for the model \<open>m\<close> the script builds: the solver reports
  \<^verbatim>\<open>OPTIMAL\<close> or \<^verbatim>\<open>FEASIBLE\<close> only together with a solution of every constraint
  added to the model. Statements that count variables or entries are about
  data sections that list no identifier twice (\<open>well_formed\<close>), as the script's
  does.
\<close>

text \<open>
  Claim C7. Decoding is a function of the assignment: students, days and
  periods are visited in their given order, the entry \<open>(s, d, p, subj, r)\<close> is
  emitted exactly for the variables that are true, a slot without a true
  variable contributes no entry, and decoding once more, from whatever state
  the loops were left in, appends the same sequence again.
\<close>

theorem decode_schedule:
  "entries (decode cfg v) = schedule cfg v
   \<and> entries (fold (decode_student cfg v) (students cfg) st) = entries st @ entries (decode cfg v)
   \<and> set (entries (decode cfg v)) =
       {(s, d, p, subj, r). s \<in> set (students cfg) \<and> d \<in> set (day_range cfg)
          \<and> p \<in> set (periods cfg) \<and> subj \<in> set (subjects cfg)
          \<and> r \<in> set (dict_values (rooms cfg)) \<and> v (s, subj, d, p, r)}"
  by (simp add: entries_decode entries_decode_from set_schedule)

text \<open>
  Claim C2. For an accepted assignment and a (student, subject) pair of the
  data section, the number of true variables of the pair over all days,
  periods and rooms, and the number of decoded entries of the pair, both equal
  \<^verbatim>\<open>subject_hours[subject]\<close>.
\<close>

theorem quota_met:
  assumes "well_formed cfg" "build cfg = Inr m" "satisfies m v"
    "s \<in> set (students cfg)" "subj \<in> set (subjects cfg)"
  shows "\<exists>h. getitem (subject_hours cfg) subj = Inr h
           \<and> int (card {(d, p, r). d \<in> set (day_range cfg) \<and> p \<in> set (periods cfg)
                        \<and> r \<in> set (dict_values (rooms cfg)) \<and> v (s, subj, d, p, r)}) = h
           \<and> int (length (entries_for s subj (entries (decode cfg v)))) = h"
proof -
  from weekly_hours_mem [OF assms(2,4,5)] obtain h where
    h: "map_of (subject_hours cfg) subj = Some h" and
    c: "Sum_eq (scope_pair cfg s subj) h \<in> set (constraints m)"
    by blast
  from satisfies_mem [OF assms(3) c] have "sum_true v (scope_pair cfg s subj) = h"
    by simp
  then have card: "int (card {k \<in> set (scope_pair cfg s subj). v k}) = h"
    by (simp add: sum_true_card [OF distinct_scope_pair [OF assms(1)]])
  let ?g = "\<lambda>(d, p, r). (s, subj, d, p, r) :: key"
  let ?T = "{(d, p, r). d \<in> set (day_range cfg) \<and> p \<in> set (periods cfg)
                        \<and> r \<in> set (dict_values (rooms cfg)) \<and> v (s, subj, d, p, r)}"
  have img: "?g ` ?T = {k \<in> set (scope_pair cfg s subj). v k}"
    by (auto simp: scope_pair_mem)
  have "inj_on ?g ?T"
    by (auto simp: inj_on_def)
  then have "card (?g ` ?T) = card ?T"
    by (rule card_image)
  with img card have c1: "int (card ?T) = h" by simp
  have c2: "int (length (entries_for s subj (entries (decode cfg v)))) = h"
    using card_entries_for [OF assms(1,4,5), of v] card
    by (simp add: entries_decode)
  from h c1 c2 show ?thesis
    by (simp add: getitem_def)
qed

theorem quota_met_witness:
  "well_formed demo \<and> build demo = Inr demo_model \<and> satisfies demo_model demo_v
   \<and> ''S1'' \<in> set (students demo) \<and> ''A'' \<in> set (subjects demo)
   \<and> getitem (subject_hours demo) ''A'' = Inr 1
   \<and> int (length (entries_for ''S1'' ''A'' (entries (decode demo demo_v)))) = 1"
proof -
  have wf: "well_formed demo" by code_simp
  have b: "build demo = Inr demo_model" by code_simp
  have sat: "satisfies demo_model demo_v" by code_simp
  have s: "''S1'' \<in> set (students demo)" by code_simp
  have subj: "''A'' \<in> set (subjects demo)" by code_simp
  have h: "getitem (subject_hours demo) ''A'' = Inr 1" by code_simp
  from quota_met [OF wf b sat s subj] h
  have "int (length (entries_for ''S1'' ''A'' (entries (decode demo demo_v)))) = 1"
    by auto
  with wf b sat s subj h show ?thesis by simp
qed




text \<open>
  Claim C4. The only teacher with a restricted set of days is T1. For every
  variable of a subject taught by T1 whose day is not in
  \<^verbatim>\<open>allowed_days_t1\<close>, the model holds the constraint that the variable is 0, so
  no accepted assignment sets it; hence every decoded entry of a subject taught
  by T1 has its day in \<^verbatim>\<open>allowed_days_t1\<close>.
\<close>

theorem t1_allowed_days:
  assumes b: "build cfg = Inr m" and sat: "satisfies m v"
    and t: "getitem (teachers cfg) subj = Inr ''T1''"
  shows "(s \<in> set (students cfg) \<and> subj \<in> set (subjects cfg) \<and> d \<in> set (day_range cfg)
            \<and> d \<notin> set (allowed_days_t1 cfg) \<and> p \<in> set (periods cfg)
            \<and> r \<in> set (dict_values (rooms cfg))
          \<longrightarrow> Sum_eq [(s, subj, d, p, r)] 0 \<in> set (constraints m) \<and> \<not> v (s, subj, d, p, r))
       \<and> ((s, d, p, subj, r) \<in> set (entries (decode cfg v)) \<longrightarrow> d \<in> set (allowed_days_t1 cfg))"
proof -
  from t have t': "map_of (teachers cfg) subj = Some ''T1''"
    by (simp add: getitem_def split: option.splits)
  have forced: "Sum_eq [(s, subj, d, p, r)] 0 \<in> set (constraints m) \<and> \<not> v (s, subj, d, p, r)"
    if k: "s \<in> set (students cfg)" "subj \<in> set (subjects cfg)" "d \<in> set (day_range cfg)"
      "d \<notin> set (allowed_days_t1 cfg)" "p \<in> set (periods cfg)" "r \<in> set (dict_values (rooms cfg))"
    for s d p r
  proof -
    have c: "Sum_eq [(s, subj, d, p, r)] 0 \<in> set (constraints m)"
      by (rule t1_days_mem [OF b k(1,2) t' k(3-6)])
    from satisfies_mem [OF sat c] have "\<not> v (s, subj, d, p, r)"
      by (simp add: sum_true_def split: if_splits)
    with c show ?thesis by simp
  qed
  have entry: "d \<in> set (allowed_days_t1 cfg)" if e: "(s, d, p, subj, r) \<in> set (entries (decode cfg v))"
  proof (rule ccontr)
    assume "d \<notin> set (allowed_days_t1 cfg)"
    moreover from e have "s \<in> set (students cfg)" "subj \<in> set (subjects cfg)" "d \<in> set (day_range cfg)"
      "p \<in> set (periods cfg)" "r \<in> set (dict_values (rooms cfg))" "v (s, subj, d, p, r)"
      by (simp_all add: entries_decode schedule_mem)
    ultimately show False using forced [of s d p r] by simp
  qed
  from forced entry show ?thesis by blast
qed

theorem t1_allowed_days_witness:
  "build demo = Inr demo_model \<and> satisfies demo_model demo_v
   \<and> getitem (teachers demo) ''A'' = Inr ''T1''
   \<and> 0 \<notin> set (allowed_days_t1 demo)
   \<and> Sum_eq [(''S1'', ''A'', 0, 0, ''Room_A'')] 0 \<in> set (constraints demo_model)
   \<and> \<not> demo_v (''S1'', ''A'', 0, 0, ''Room_A'')
   \<and> (''S1'', 1, 0, ''A'', ''Room_A'') \<in> set (entries (decode demo demo_v))
   \<and> 1 \<in> set (allowed_days_t1 demo)"
proof -
  have b: "build demo = Inr demo_model" by code_simp
  have sat: "satisfies demo_model demo_v" by code_simp
  have t: "getitem (teachers demo) ''A'' = Inr ''T1''" by code_simp
  have k: "''S1'' \<in> set (students demo) \<and> ''A'' \<in> set (subjects demo) \<and> 0 \<in> set (day_range demo)
            \<and> 0 \<notin> set (allowed_days_t1 demo) \<and> 0 \<in> set (periods demo)
            \<and> ''Room_A'' \<in> set (dict_values (rooms demo))" by code_simp
  have e: "(''S1'', 1, 0, ''A'', ''Room_A'') \<in> set (entries (decode demo demo_v))" by code_simp
  from t1_allowed_days [OF b sat t, of "''S1''" 0 0 "''Room_A''"] k
  have f: "Sum_eq [(''S1'', ''A'', 0, 0, ''Room_A'')] 0 \<in> set (constraints demo_model)
           \<and> \<not> demo_v (''S1'', ''A'', 0, 0, ''Room_A'')" by blast
  from t1_allowed_days [OF b sat t, of "''S1''" 1 0 "''Room_A''"] e
  have a: "1 \<in> set (allowed_days_t1 demo)" by blast
  from b sat t k f e a show ?thesis by blast
qed

text \<open>
  Claim C5. The value of the minimized objective at an accepted assignment is
  the number of true variables whose room differs from \<^verbatim>\<open>rooms[subject]\<close>, which is
  the number of decoded entries outside their subject's preferred room; and
  when the assignment is the one an \<^verbatim>\<open>OPTIMAL\<close> result certifies, its penalty is at
  most the penalty of every assignment that satisfies the constraints of the
  same model.
\<close>

theorem penalty_objective:
  assumes wf: "well_formed cfg" and b: "build cfg = Inr m" and sat: "satisfies m v"
  shows "objective_value m v =
           int (card {(s, subj, d, p, r). s \<in> set (students cfg) \<and> subj \<in> set (subjects cfg)
                  \<and> d \<in> set (day_range cfg) \<and> p \<in> set (periods cfg)
                  \<and> r \<in> set (dict_values (rooms cfg))
                  \<and> v (s, subj, d, p, r) \<and> getitem (rooms cfg) subj \<noteq> Inr r})
       \<and> objective_value m v = int (penalty cfg (entries (decode cfg v)))
       \<and> (optimal m v \<longrightarrow>
            (\<forall>v'. satisfies m v' \<longrightarrow>
               penalty cfg (entries (decode cfg v)) \<le> penalty cfg (entries (decode cfg v'))))"
proof -
  have "penalty cfg (entries (decode cfg v)) \<le> penalty cfg (entries (decode cfg v'))"
    if "optimal m v" "satisfies m v'" for v'
  proof -
    from that have "objective_value m v \<le> objective_value m v'"
      by (simp add: optimal_def)
    then show ?thesis
      by (simp add: objective_penalty(2) [OF wf b])
  qed
  with objective_penalty [OF wf b, of v] show ?thesis by blast
qed

theorem penalty_objective_witness:
  "well_formed demo \<and> build demo = Inr demo_model \<and> satisfies demo_model demo_v'
   \<and> objective_value demo_model demo_v' = 1
   \<and> penalty demo (entries (decode demo demo_v')) = 1
   \<and> satisfies demo_model demo_v \<and> optimal demo_model demo_v
   \<and> penalty demo (entries (decode demo demo_v)) = 0
   \<and> penalty demo (entries (decode demo demo_v)) \<le> penalty demo (entries (decode demo demo_v'))"
proof -
  have wf: "well_formed demo" by code_simp
  have b: "build demo = Inr demo_model" by code_simp
  have sat: "satisfies demo_model demo_v" by code_simp
  have sat': "satisfies demo_model demo_v'" by code_simp
  have o': "objective_value demo_model demo_v' = 1" by code_simp
  have o: "objective_value demo_model demo_v = 0" by code_simp
  have opt: "optimal demo_model demo_v"
    unfolding optimal_def using sat o by (simp add: objective_value_def sum_true_nonneg)
  from penalty_objective [OF wf b sat'] o'
  have p': "penalty demo (entries (decode demo demo_v')) = 1" by simp
  from penalty_objective [OF wf b sat] o
  have p: "penalty demo (entries (decode demo demo_v)) = 0" by simp
  from penalty_objective [OF wf b sat] opt sat'
  have le: "penalty demo (entries (decode demo demo_v)) \<le> penalty demo (entries (decode demo demo_v'))"
    by blast
  from wf b sat sat' o' p' opt p le show ?thesis by blast
qed

text \<open>
  Claim C8. Called with an empty list of entries, \<^verbatim>\<open>plot_schedule\<close> prints one line
  and returns: no Matplotlib call is made and nothing is saved, whatever the
  other arguments are.
\<close>

theorem plot_schedule_empty:
  "plot_schedule cmap [] sts ds ps output_path = Inr [Print ''No entries to plot.'']"
  by (simp add: plot_schedule_def)

text \<open>
  Claim C9. The dictionary \<^verbatim>\<open>room_colors\<close> is keyed by exactly the rooms that occur
  in the entries, so the read \<^verbatim>\<open>room_colors[room]\<close> succeeds for the room of every
  entry, and so do the reads that build the legend.
\<close>

theorem room_colors_total:
  assumes "(student, day_idx, period_idx, subject, room) \<in> set es"
  shows "fst ` set (room_colors cmap es) =
           (\<lambda>(student, day_idx, period_idx, subject, room). room) ` set es
       \<and> (\<exists>color. getitem (room_colors cmap es) room = Inr color)
       \<and> (\<exists>legend_handles.
            for_each (\<lambda>room. case getitem (room_colors cmap es) room of
                                Inl err \<Rightarrow> Inl err
                              | Inr color \<Rightarrow> Inr (room, color))
              (unique_rooms es) = Inr legend_handles)"
proof -
  have keys: "fst ` set (room_colors cmap es) =
           (\<lambda>(student, day_idx, period_idx, subject, room). room) ` set es"
    using dom_room_colors [of cmap es]
    by (simp add: dom_map_of_conv_image_fst set_unique_rooms)
  from assms have "room \<in> set (unique_rooms es)"
    by (force simp: set_unique_rooms)
  then have "room \<in> dom (map_of (room_colors cmap es))"
    by (simp add: dom_room_colors)
  then have look: "\<exists>color. getitem (room_colors cmap es) room = Inr color"
    by (rule getitem_dom)
  have "\<exists>y. (case getitem (room_colors cmap es) r of
                Inl err \<Rightarrow> Inl err
              | Inr color \<Rightarrow> Inr (r, color)) = Inr y" if "r \<in> set (unique_rooms es)" for r
  proof -
    from that have "r \<in> dom (map_of (room_colors cmap es))" by (simp add: dom_room_colors)
    from getitem_dom [OF this] show ?thesis by auto
  qed
  then have "\<exists>legend_handles.
            for_each (\<lambda>room. case getitem (room_colors cmap es) room of
                                Inl err \<Rightarrow> Inl err
                              | Inr color \<Rightarrow> Inr (room, color))
              (unique_rooms es) = Inr legend_handles"
    by (rule for_each_total)
  with keys look show ?thesis by blast
qed

theorem room_colors_total_witness:
  "(''S1'', 0, 0, ''A'', ''Room_B'') \<in> set two_entries
   \<and> fst ` set (room_colors palette_index two_entries) = {''Room_A'', ''Room_B''}
   \<and> getitem (room_colors palette_index two_entries) ''Room_B'' = Inr 1"
proof -
  have m: "(''S1'', 0, 0, ''A'', ''Room_B'') \<in> set two_entries" by code_simp
  have i: "(\<lambda>(student, day_idx, period_idx, subject, room). room) ` set two_entries
             = {''Room_A'', ''Room_B''}"
    by (auto simp: two_entries_def)
  have g: "getitem (room_colors palette_index two_entries) ''Room_B'' = Inr 1" by code_simp
  from room_colors_total [OF m, of palette_index] i g m show ?thesis by simp
qed

text \<open>
  Claim C10. The rooms of the entries are listed once each in sorted order,
  and the room at index \<open>i\<close> of that list gets the color \<^verbatim>\<open>cmap(i % 10)\<close>: the
  palette of 10 is cycled through. So two different rooms whose indices are
  congruent modulo 10 get the same color, and the assignment of colors to rooms
  can be one-to-one only when at most 10 different rooms occur in the entries.
\<close>

theorem palette_cycles:
  "sorted (unique_rooms es) \<and> distinct (unique_rooms es)
   \<and> set (unique_rooms es) = (\<lambda>(student, day_idx, period_idx, subject, room). room) ` set es
   \<and> (\<forall>i < length (unique_rooms es).
         getitem (room_colors cmap es) (unique_rooms es ! i) = Inr (cmap (int i mod 10)))
   \<and> (\<forall>i j. i < length (unique_rooms es) \<and> j < length (unique_rooms es) \<and> i \<noteq> j
           \<and> i mod 10 = j mod 10
         \<longrightarrow> unique_rooms es ! i \<noteq> unique_rooms es ! j
           \<and> getitem (room_colors cmap es) (unique_rooms es ! i) =
             getitem (room_colors cmap es) (unique_rooms es ! j))
   \<and> (inj_on (getitem (room_colors cmap es)) (set (unique_rooms es))
         \<longrightarrow> length (unique_rooms es) \<le> 10)"
proof -
  let ?ur = "unique_rooms es"
  let ?rc = "room_colors cmap es"
  have srt: "sorted ?ur" by (simp add: unique_rooms_def)
  have dst: "distinct ?ur" by (rule distinct_unique_rooms)
  have st: "set ?ur = (\<lambda>(student, day_idx, period_idx, subject, room). room) ` set es"
    by (rule set_unique_rooms)
  have get: "getitem ?rc (?ur ! i) = Inr (cmap (int i mod 10))" if "i < length ?ur" for i
    using room_colors_nth [OF that, of cmap] by (simp add: getitem_def)
  have same: "?ur ! i \<noteq> ?ur ! j \<and> getitem ?rc (?ur ! i) = getitem ?rc (?ur ! j)"
    if "i < length ?ur" "j < length ?ur" "i \<noteq> j" "i mod 10 = j mod 10" for i j
  proof -
    from that(1-3) have "?ur ! i \<noteq> ?ur ! j"
      by (simp add: nth_eq_iff_index_eq distinct_unique_rooms)
    moreover from that(4) have "int i mod 10 = int j mod 10"
      by (metis of_nat_mod of_nat_numeral)
    ultimately show ?thesis using get [OF that(1)] get [OF that(2)] by simp
  qed
  have le: "length ?ur \<le> 10" if inj: "inj_on (getitem ?rc) (set ?ur)"
  proof (rule ccontr)
    assume "\<not> length ?ur \<le> 10"
    then have l: "0 < length ?ur" "10 < length ?ur" by linarith+
    from same [OF l] have "?ur ! 0 \<noteq> ?ur ! 10" "getitem ?rc (?ur ! 0) = getitem ?rc (?ur ! 10)"
      by simp_all
    moreover from l have "?ur ! 0 \<in> set ?ur" "?ur ! 10 \<in> set ?ur" by simp_all
    ultimately show False using inj by (auto dest: inj_onD)
  qed
  have g: "\<forall>i < length ?ur. getitem ?rc (?ur ! i) = Inr (cmap (int i mod 10))"
    using get by blast
  have sm: "\<forall>i j. i < length ?ur \<and> j < length ?ur \<and> i \<noteq> j \<and> i mod 10 = j mod 10
         \<longrightarrow> ?ur ! i \<noteq> ?ur ! j \<and> getitem ?rc (?ur ! i) = getitem ?rc (?ur ! j)"
    using same by blast
  have ij: "inj_on (getitem ?rc) (set ?ur) \<longrightarrow> length ?ur \<le> 10"
    using le by blast
  from srt dst st g sm ij show ?thesis by (intro conjI)
qed

theorem palette_cycles_witness:
  "(0::nat) < length (unique_rooms eleven_rooms) \<and> 10 < length (unique_rooms eleven_rooms)
   \<and> (0::nat) \<noteq> 10 \<and> (0::nat) mod 10 = 10 mod 10
   \<and> getitem (room_colors palette_index eleven_rooms) (unique_rooms eleven_rooms ! 3) = Inr 3
   \<and> getitem (room_colors palette_index eleven_rooms) (unique_rooms eleven_rooms ! 10) = Inr 0
   \<and> unique_rooms eleven_rooms ! 0 \<noteq> unique_rooms eleven_rooms ! 10
   \<and> getitem (room_colors palette_index eleven_rooms) (unique_rooms eleven_rooms ! 0) =
       getitem (room_colors palette_index eleven_rooms) (unique_rooms eleven_rooms ! 10)
   \<and> \<not> inj_on (getitem (room_colors palette_index eleven_rooms))
           (set (unique_rooms eleven_rooms))"
proof -
  have l: "length (unique_rooms eleven_rooms) = 11" by code_simp
  then have h: "(0::nat) < length (unique_rooms eleven_rooms) \<and> 10 < length (unique_rooms eleven_rooms)
     \<and> (0::nat) \<noteq> 10 \<and> (0::nat) mod 10 = 10 mod 10" by simp
  note pc = palette_cycles [of eleven_rooms palette_index]
  from pc have g: "\<forall>i < length (unique_rooms eleven_rooms).
      getitem (room_colors palette_index eleven_rooms) (unique_rooms eleven_rooms ! i)
        = Inr (palette_index (int i mod 10))"
    by (elim conjE)
  from g l have g3: "getitem (room_colors palette_index eleven_rooms) (unique_rooms eleven_rooms ! 3) = Inr 3"
    by (simp add: palette_index_def)
  from g l have g10: "getitem (room_colors palette_index eleven_rooms) (unique_rooms eleven_rooms ! 10) = Inr 0"
    by (simp add: palette_index_def)
  from pc have sm: "\<forall>i j. i < length (unique_rooms eleven_rooms) \<and> j < length (unique_rooms eleven_rooms)
           \<and> i \<noteq> j \<and> i mod 10 = j mod 10
         \<longrightarrow> unique_rooms eleven_rooms ! i \<noteq> unique_rooms eleven_rooms ! j
           \<and> getitem (room_colors palette_index eleven_rooms) (unique_rooms eleven_rooms ! i) =
             getitem (room_colors palette_index eleven_rooms) (unique_rooms eleven_rooms ! j)"
    by (elim conjE)
  from sm h have s0: "unique_rooms eleven_rooms ! 0 \<noteq> unique_rooms eleven_rooms ! 10
       \<and> getitem (room_colors palette_index eleven_rooms) (unique_rooms eleven_rooms ! 0) =
         getitem (room_colors palette_index eleven_rooms) (unique_rooms eleven_rooms ! 10)"
    by blast
  from pc have "inj_on (getitem (room_colors palette_index eleven_rooms))
       (set (unique_rooms eleven_rooms)) \<longrightarrow> length (unique_rooms eleven_rooms) \<le> 10"
    by (elim conjE)
  with l have ni: "\<not> inj_on (getitem (room_colors palette_index eleven_rooms))
           (set (unique_rooms eleven_rooms))" by auto
  from h g3 g10 s0 ni show ?thesis by blast
qed

text \<open>
  Claim C6. When the script runs to its end, the status it reports is the
  name of the solver's status, which for the five codes of the solver's
  enumeration is one of OPTIMAL, FEASIBLE, INFEASIBLE, UNKNOWN and
  MODEL\_INVALID; and \<^verbatim>\<open>plot_schedule\<close> is called, with the decoded entries, if and
  only if the status is OPTIMAL or FEASIBLE.
\<close>

theorem status_and_handoff:
  assumes req: "required_A_lessons cfg = Inr req" and b: "build cfg = Inr m"
    and sv: "solve m = (status, v)"
  shows "\<exists>tr. run cmap solve cfg = Inr tr
       \<and> Print (CHR 0x0A # ''Solver status: '' @ status_name status) \<in> set tr
       \<and> ((\<exists>es. Call_plot_schedule es \<in> set tr) \<longleftrightarrow> status = OPTIMAL \<or> status = FEASIBLE)
       \<and> (\<forall>es. Call_plot_schedule es \<in> set tr \<longrightarrow> es = entries (decode cfg v))
       \<and> (status \<in> set cp_statuses \<longrightarrow>
            status_name status \<in>
              set [''OPTIMAL'', ''FEASIBLE'', ''INFEASIBLE'', ''UNKNOWN'', ''MODEL_INVALID''])"
proof -
  from run_shape [where solve = solve and cmap = cmap, OF req b sv] obtain rest where
    tr: "run cmap solve cfg =
           Inr ([Print ''Quick sanity check:'',
                 Print (''Required A lessons: '' @ str_int req),
                 Print (''T1 capacity on allowed days: '' @ str_int (t1_capacity cfg)),
                 Solver_Solve,
                 Print (CHR 0x0A # ''Solver status: '' @ status_name status)] @ rest)"
    and rest: "if status = OPTIMAL \<or> status = FEASIBLE
            then \<exists>chart. rest = map Print (out (decode cfg v))
                             @ Call_plot_schedule (entries (decode cfg v)) # chart
                         \<and> list_all chart_call chart
            else rest = [Print ''No feasible schedule found.'']"
    by blast
  have names: "status \<in> set cp_statuses \<longrightarrow>
            status_name status \<in>
              set [''OPTIMAL'', ''FEASIBLE'', ''INFEASIBLE'', ''UNKNOWN'', ''MODEL_INVALID'']"
    by (auto simp: cp_statuses_def status_name_def OPTIMAL_def FEASIBLE_def INFEASIBLE_def
          MODEL_INVALID_def UNKNOWN_def)
  show ?thesis
  proof (cases "status = OPTIMAL \<or> status = FEASIBLE")
    case True
    with rest obtain chart where
      r: "rest = map Print (out (decode cfg v)) @ Call_plot_schedule (entries (decode cfg v)) # chart"
      and cc: "list_all chart_call chart" by auto
    have "es = entries (decode cfg v)" if "Call_plot_schedule es \<in> set chart \<or>
        Call_plot_schedule es = Call_plot_schedule (entries (decode cfg v))" for es
      using that chart_call_mem [OF cc, of "Call_plot_schedule es"] by (auto simp: chart_call_simps)
    with True tr r names show ?thesis by auto
  next
    case False
    with rest have "rest = [Print ''No feasible schedule found.'']" by simp
    with False tr names show ?thesis by auto
  qed
qed

theorem status_and_handoff_witness:
  "required_A_lessons demo = Inr 2 \<and> build demo = Inr demo_model
   \<and> returns_demo_v demo_model = (OPTIMAL, demo_v)
   \<and> OPTIMAL \<in> set cp_statuses \<and> status_name OPTIMAL = ''OPTIMAL''
   \<and> (\<exists>tr. run palette_index returns_demo_v demo = Inr tr
          \<and> Print (CHR 0x0A # ''Solver status: OPTIMAL'') \<in> set tr
          \<and> Call_plot_schedule (entries (decode demo demo_v)) \<in> set tr)"
proof -
  have req: "required_A_lessons demo = Inr 2" by code_simp
  have b: "build demo = Inr demo_model" by code_simp
  have sv: "returns_demo_v demo_model = (OPTIMAL, demo_v)" by (simp add: returns_demo_v_def)
  have st: "OPTIMAL \<in> set cp_statuses" "status_name OPTIMAL = ''OPTIMAL''" by code_simp+
  from status_and_handoff [where solve = returns_demo_v and cmap = palette_index, OF req b sv] obtain tr where
    tr: "run palette_index returns_demo_v demo = Inr tr"
    and p: "Print (CHR 0x0A # ''Solver status: '' @ status_name OPTIMAL) \<in> set tr"
    and c: "(\<exists>es. Call_plot_schedule es \<in> set tr) \<longleftrightarrow> OPTIMAL = OPTIMAL \<or> OPTIMAL = FEASIBLE"
    and u: "\<forall>es. Call_plot_schedule es \<in> set tr \<longrightarrow> es = entries (decode demo demo_v)"
    by blast
  from c u have "Call_plot_schedule (entries (decode demo demo_v)) \<in> set tr" by auto
  with req b sv st tr p show ?thesis by auto
qed

text \<open>
  Claim C1, as amended. The sanity check computes
  \<^verbatim>\<open>len(students) * subject_hours["A"]\<close> and
  \<^verbatim>\<open>len(periods) * len(allowed_days_t1)\<close> and prints both; it compares nothing.
  Whatever the two numbers are, the model is built, the solver is called and
  the status reported is the solver's own: MODEL\_INVALID is reported exactly
  when the solver returns that status.
\<close>

theorem solve_is_unconditional:
  assumes req: "required_A_lessons cfg = Inr req" and b: "build cfg = Inr m"
    and sv: "solve m = (status, v)"
  shows "(\<exists>rest. run cmap solve cfg =
           Inr ([Print ''Quick sanity check:'',
                 Print (''Required A lessons: '' @ str_int req),
                 Print (''T1 capacity on allowed days: '' @ str_int (t1_capacity cfg)),
                 Solver_Solve,
                 Print (CHR 0x0A # ''Solver status: '' @ status_name status)] @ rest))
       \<and> (status_name status = ''MODEL_INVALID'' \<longleftrightarrow> status = MODEL_INVALID)"
  using run_shape [where solve = solve and cmap = cmap, OF req b sv] status_name_MODEL_INVALID [of status] by blast

theorem solve_is_unconditional_witness:
  "required_A_lessons scenario_b = Inr 6 \<and> t1_capacity scenario_b = 10
   \<and> required_A_lessons demo = Inr 2 \<and> build demo = Inr demo_model
   \<and> returns_demo_v demo_model = (OPTIMAL, demo_v)
   \<and> (\<exists>rest. run palette_index returns_demo_v demo =
           Inr ([Print ''Quick sanity check:'',
                 Print ''Required A lessons: 2'',
                 Print ''T1 capacity on allowed days: 2'',
                 Solver_Solve,
                 Print (CHR 0x0A # ''Solver status: OPTIMAL'')] @ rest))"
proof -
  have sb: "required_A_lessons scenario_b = Inr 6 \<and> t1_capacity scenario_b = 10" by code_simp
  have req: "required_A_lessons demo = Inr 2" by code_simp
  have b: "build demo = Inr demo_model" by code_simp
  have sv: "returns_demo_v demo_model = (OPTIMAL, demo_v)" by (simp add: returns_demo_v_def)
  have s: "str_int 2 = ''2''" "str_int (t1_capacity demo) = ''2''" "status_name OPTIMAL = ''OPTIMAL''"
    by code_simp+
  from solve_is_unconditional [where solve = returns_demo_v and cmap = palette_index, OF req b sv] s sb req b sv show ?thesis
    by simp
qed

text \<open>
  The claim as stated fails: with two students, quota 1 and no allowed day for
  T1, two lessons are required and the capacity is 0, yet the solver is called
  and its status, not MODEL\_INVALID, is reported.
\<close>

theorem sanity_check_counterexample:
  "required_A_lessons no_day = Inr 2 \<and> t1_capacity no_day = 0
   \<and> run palette_index finds_infeasible no_day =
       Inr [Print ''Quick sanity check:'', Print ''Required A lessons: 2'',
            Print ''T1 capacity on allowed days: 0'', Solver_Solve,
            Print (CHR 0x0A # ''Solver status: INFEASIBLE''),
            Print ''No feasible schedule found.'']"
  by code_simp

end
